theory Spec2Isabelle
  imports Complex_Main
begin

section \<open>Host side: serial ingestion, normalisation and decision\<close>

text \<open>
  The host program is the notebook \<^verbatim>\<open>02_Arduino_Nano_Inference.ipynb\<close>; the peer is the
  Arduino sketch that streams one decimal sample per line.

  Numbers. The window buffer is a numpy \<^verbatim>\<open>float64\<close> array and \<^verbatim>\<open>normalize\<close> computes in
  \<^verbatim>\<open>float64\<close> before casting to \<^verbatim>\<open>float16\<close>. Here every numeric value is a rational number
  and the arithmetic is exact: rounding, infinities and NaN are outside the model.

  Text. The peer prints ASCII only, so a line read from the port is identified with the
  string it decodes to.
\<close>

subsection \<open>Errors, output and the session state\<close>

datatype error = ValueError | IndexError | TypeError

text \<open>What \<^verbatim>\<open>print\<close> receives: a line of text, or a numeric array.\<close>

datatype printed = Line string | Values "rat list"

text \<open>
  \<open>serial_in\<close> holds the lines that the coming calls of \<^verbatim>\<open>arduino.readline()\<close> return, in
  order; once it is empty every further call times out and returns the empty line.
  \<open>serial_out\<close> collects the bytes written to the port, \<open>stdout\<close> what was printed.
\<close>

record world =
  serial_in :: "string list"
  serial_out :: string
  stdout :: "printed list"

definition readline :: "world \<Rightarrow> string \<times> world" where
  "readline w =
     (case serial_in w of
        [] \<Rightarrow> ([], w)
      | l # ls \<Rightarrow> (l, w\<lparr>serial_in := ls\<rparr>))"

definition serial_write :: "string \<Rightarrow> world \<Rightarrow> world" where
  "serial_write bs w = w\<lparr>serial_out := serial_out w @ bs\<rparr>"

definition py_print :: "printed \<Rightarrow> world \<Rightarrow> world" where
  "py_print p w = w\<lparr>stdout := stdout w @ [p]\<rparr>"

subsection \<open>Text of a sample\<close>

definition is_crlf :: "char \<Rightarrow> bool" where
  "is_crlf c = (c = CHR 0x0D \<or> c = CHR 0x0A)"

text \<open>\<^verbatim>\<open>s.strip('\r\n')\<close>: carriage returns and line feeds go, at both ends.\<close>

definition strip_crlf :: "string \<Rightarrow> string" where
  "strip_crlf s = rev (dropWhile is_crlf (rev (dropWhile is_crlf s)))"

definition is_digit :: "char \<Rightarrow> bool" where
  "is_digit c = (48 \<le> (of_char c :: nat) \<and> (of_char c :: nat) \<le> 57)"

definition digit_val :: "char \<Rightarrow> int" where
  "digit_val c = int (of_char c) - 48"

definition py_digits :: "string \<Rightarrow> int option" where
  "py_digits ds =
     (if ds \<noteq> [] \<and> list_all is_digit ds
      then Some (foldl (\<lambda>acc c. 10 * acc + digit_val c) 0 ds)
      else None)"

text \<open>
  \<^verbatim>\<open>int(s)\<close> on the tokens of the protocol: an optional sign and at least one decimal digit.
  None stands for the \<^verbatim>\<open>ValueError\<close> of Python. (Python also takes blanks around the
  number and underscores between digits; the peer never prints these and they count as
  non-numeric here.)
\<close>

definition py_int :: "string \<Rightarrow> int option" where
  "py_int s =
     (case s of
        [] \<Rightarrow> None
      | c # cs \<Rightarrow>
          if c = CHR ''-'' then map_option uminus (py_digits cs)
          else if c = CHR ''+'' then py_digits cs
          else py_digits s)"

text \<open>
  The conversion numpy applies when a string is stored into a \<^verbatim>\<open>float64\<close> array, on the
  same tokens. None stands for the \<^verbatim>\<open>ValueError\<close>.
\<close>

definition np_float :: "string \<Rightarrow> rat option" where
  "np_float s = map_option of_int (py_int s)"

subsection \<open>normalize\<close>

text \<open>
  \<^verbatim>\<open>array = (((array - old_min) * (new_max - new_min)) / (old_max - old_min)) + new_min\<close>,
  followed by \<^verbatim>\<open>array.astype(np.float16)\<close>, which is the identity in exact arithmetic. For
  \<open>old_max = old_min\<close> numpy divides by zero and yields an infinity or NaN, which no
  rational number stands for; whatever is proved below about a normalised value assumes
  \<open>old_max \<noteq> old_min\<close>.
\<close>

definition normalize :: "rat \<Rightarrow> rat \<Rightarrow> rat \<Rightarrow> rat \<Rightarrow> rat \<Rightarrow> rat" where
  "normalize array new_max new_min old_max old_min =
     (((array - old_min) * (new_max - new_min)) / (old_max - old_min)) + new_min"

subsection \<open>arduino\_read\<close>

text \<open>
  \<^verbatim>\<open>np.roll(a, shift)\<close> on a one-dimensional array: the element at index \<open>i\<close> moves to index
  \<open>(i + shift) mod n\<close>, so a positive shift moves the tail of the array to its front.
\<close>

definition np_roll :: "'a list \<Rightarrow> int \<Rightarrow> 'a list" where
  "np_roll a shift =
     (let n = length a in
      if n = 0 then a
      else let s = nat (shift mod int n) in drop (n - s) a @ take (n - s) a)"

text \<open>\<^verbatim>\<open>range(n)\<close>\<close>

definition py_range :: "int \<Rightarrow> int list" where
  "py_range n = map int [0..<nat n]"

text \<open>
  The parameter \<^verbatim>\<open>norm\<close> of the source is written \<open>nrm\<close> below.

  The loop \<^verbatim>\<open>while decoded_data == ''\<close>: read a line, strip it, count the attempt, give up
  with a message once \<open>max_attempts\<close> is reached, go round again only while the token is
  empty. The result is the token, the final value of \<open>attempts\<close> and the new state.
\<close>

function read_token :: "int \<Rightarrow> int \<Rightarrow> world \<Rightarrow> string \<times> int \<times> world" where
  "read_token max_attempts attempts w =
     (let arduino_data = fst (readline w);
          w1 = snd (readline w);
          decoded_data = strip_crlf arduino_data;
          attempts1 = attempts + 1
      in if attempts1 \<ge> max_attempts
         then (decoded_data, attempts1, py_print (Line ''Fail to Retrieve Data...'') w1)
         else if decoded_data = [] then read_token max_attempts attempts1 w1
         else (decoded_data, attempts1, w1))"
  by pat_completeness auto
termination
  by (relation "measure (\<lambda>(m, a, w). nat (m - a))") auto

declare read_token.simps [simp del]

text \<open>The value held by \<open>decoded_data\<close> when it is stored: still text, or a number.\<close>

datatype pyval = PStr string | PFloat rat

text \<open>An index into an array of length \<open>n\<close>; negative indices count from the end.\<close>

definition np_index :: "nat \<Rightarrow> int \<Rightarrow> nat option" where
  "np_index n j =
     (if 0 \<le> j \<and> j < int n then Some (nat j)
      else if - int n \<le> j \<and> j < 0 then Some (nat (int n + j))
      else None)"

text \<open>\<^verbatim>\<open>buffer[j] = v\<close>: the index is checked, then the value converted.\<close>

definition setitem :: "rat list \<Rightarrow> int \<Rightarrow> pyval \<Rightarrow> error + rat list" where
  "setitem buffer j v =
     (case np_index (length buffer) j of
        None \<Rightarrow> Inl IndexError
      | Some k \<Rightarrow>
          (case v of
             PFloat r \<Rightarrow> Inr (buffer[k := r])
           | PStr s \<Rightarrow>
               (case np_float s of
                  None \<Rightarrow> Inl ValueError
                | Some r \<Rightarrow> Inr (buffer[k := r]))))"

text \<open>
  \<^verbatim>\<open>if norm[0] is not None: decoded_data = normalize(int(decoded_data), 1, -1, norm[0], norm[1])\<close>.
  The conversion \<^verbatim>\<open>int\<close> runs first and is outside every \<^verbatim>\<open>try\<close>.
\<close>

definition apply_norm :: "rat option \<times> rat option \<Rightarrow> string \<Rightarrow> error + pyval" where
  "apply_norm nrm decoded_data =
     (case fst nrm of
        None \<Rightarrow> Inr (PStr decoded_data)
      | Some old_max \<Rightarrow>
          (case py_int decoded_data of
             None \<Rightarrow> Inl ValueError
           | Some raw \<Rightarrow>
               (case snd nrm of
                  None \<Rightarrow> Inl TypeError
                | Some old_min \<Rightarrow> Inr (PFloat (normalize (of_int raw) 1 (- 1) old_max old_min)))))"

definition MONITOR_MSG :: string where
  "MONITOR_MSG = ''Open the Serial Monitor to check if it is working. If it's not, press the reset button and rerun 'arduino_activate' funciton again.''"

text \<open>
  One turn of \<^verbatim>\<open>for i in range(num_data)\<close>. Only the store is inside \<^verbatim>\<open>try\<close>, and only
  \<^verbatim>\<open>ValueError\<close> is caught there.
\<close>

definition read_sample ::
  "int \<Rightarrow> int \<Rightarrow> rat option \<times> rat option \<Rightarrow> int \<Rightarrow> rat list \<Rightarrow> world \<Rightarrow> (error + rat list) \<times> world" where
  "read_sample i overlapping nrm max_attempts buffer w =
     (let r = read_token max_attempts 0 w;
          decoded_data = fst r;
          w1 = snd (snd r)
      in case apply_norm nrm decoded_data of
           Inl e \<Rightarrow> (Inl e, w1)
         | Inr v \<Rightarrow>
             (case setitem buffer (i + overlapping) v of
                Inr buffer' \<Rightarrow> (Inr buffer', w1)
              | Inl e \<Rightarrow>
                  if e = ValueError then (Inr buffer, py_print (Line MONITOR_MSG) w1)
                  else (Inl e, w1)))"

text \<open>
  The \<^verbatim>\<open>for\<close> loop over the indices of \<^verbatim>\<open>range(num_data)\<close>; an exception that is not caught
  ends it.
\<close>

fun refill_loop ::
  "int list \<Rightarrow> int \<Rightarrow> rat option \<times> rat option \<Rightarrow> int \<Rightarrow> rat list \<Rightarrow> world \<Rightarrow> (error + rat list) \<times> world" where
  "refill_loop [] overlapping nrm max_attempts buffer w = (Inr buffer, w)"
| "refill_loop (i # is) overlapping nrm max_attempts buffer w =
     (case read_sample i overlapping nrm max_attempts buffer w of
        (Inl e, w1) \<Rightarrow> (Inl e, w1)
      | (Inr buffer', w1) \<Rightarrow> refill_loop is overlapping nrm max_attempts buffer' w1)"

text \<open>
  The whole function: rotate, then read \<open>buffer_size - overlapping\<close> samples into the slots
  from \<open>overlapping\<close> on. The state is the last argument; the default of \<open>max_attempts\<close> in
  the source is 10.
\<close>

definition arduino_read ::
  "rat list \<Rightarrow> int \<Rightarrow> int \<Rightarrow> rat option \<times> rat option \<Rightarrow> int \<Rightarrow> world \<Rightarrow> (error + rat list) \<times> world" where
  "arduino_read buffer buffer_size overlapping nrm max_attempts w =
     (let buffer1 = np_roll buffer overlapping;
          num_data = buffer_size - overlapping
      in refill_loop (py_range num_data) overlapping nrm max_attempts buffer1 w)"

subsection \<open>One inference round\<close>

definition BUFFER_SIZE :: int where
  "BUFFER_SIZE = 24000"

definition OVERLAPPED :: int where
  "OVERLAPPED = 512"

definition EMOTIONS :: "string list" where
  "EMOTIONS = [''neutral'', ''happy'', ''surprise'', ''unpleasant'']"

definition COMMANDS :: "string list" where
  "COMMANDS = [''a'', ''b'', ''c'', ''d'']"

definition RECOG_MASK :: "rat list" where
  "RECOG_MASK = [1, 30000, 40000, 500]"

text \<open>\<^verbatim>\<open>np.zeros(n)\<close>\<close>

definition np_zeros :: "int \<Rightarrow> rat list" where
  "np_zeros n = replicate (nat n) 0"

text \<open>
  The first two statements of \<^verbatim>\<open>tflite_process_data\<close>, which build the window of the round:
  \<^verbatim>\<open>data = np.zeros(BUFFER_SIZE)\<close> and
  \<^verbatim>\<open>data = arduino_read(data, BUFFER_SIZE, OVERLAPPED, norm=(TUNING_MAX, TUNING_MIN))\<close>.
  The calibration result \<open>(TUNING_MAX, TUNING_MIN)\<close> is a parameter.
\<close>

definition tflite_window :: "rat \<times> rat \<Rightarrow> world \<Rightarrow> (error + rat list) \<times> world" where
  "tflite_window tuning w =
     (let data = np_zeros BUFFER_SIZE
      in arduino_read data BUFFER_SIZE OVERLAPPED (Some (fst tuning), Some (snd tuning)) 10 w)"

text \<open>
  \<^verbatim>\<open>np.multiply\<close> on two one-dimensional arrays: element by element, an array of length one
  being stretched to the other's length; any other pair of lengths is a \<^verbatim>\<open>ValueError\<close>.
\<close>

definition np_multiply :: "rat list \<Rightarrow> rat list \<Rightarrow> error + rat list" where
  "np_multiply xs ys =
     (if length xs = length ys then Inr (map2 (*) xs ys)
      else if length xs = 1 then Inr (map (\<lambda>y. hd xs * y) ys)
      else if length ys = 1 then Inr (map (\<lambda>x. x * hd ys) xs)
      else Inl ValueError)"

text \<open>
  \<^verbatim>\<open>np.argmax\<close>: one scan from the left that keeps the position of the best value so far
  and replaces it only for a strictly greater one.
\<close>

fun argmax_scan :: "rat list \<Rightarrow> nat \<Rightarrow> rat \<Rightarrow> nat \<Rightarrow> nat" where
  "argmax_scan [] i best best_i = best_i"
| "argmax_scan (x # xs) i best best_i =
     (if best < x then argmax_scan xs (Suc i) x i
      else argmax_scan xs (Suc i) best best_i)"

definition np_argmax :: "rat list \<Rightarrow> error + nat" where
  "np_argmax xs =
     (case xs of
        [] \<Rightarrow> Inl ValueError
      | x # xs' \<Rightarrow> Inr (argmax_scan xs' 1 x 0))"

text \<open>\<^verbatim>\<open>xs[k]\<close> on a Python list, for an index that is not negative.\<close>

definition list_get :: "'a list \<Rightarrow> nat \<Rightarrow> error + 'a" where
  "list_get xs k = (if k < length xs then Inr (xs ! k) else Inl IndexError)"

text \<open>
  The decision of a round, from \<^verbatim>\<open>result = np.multiply(prediction, RECOG_MASK)\<close> to the
  two \<^verbatim>\<open>print\<close> calls. The mask is a parameter; \<^verbatim>\<open>tflite_process_data\<close> passes
  \<open>RECOG_MASK\<close>. The commands are ASCII, so \<^verbatim>\<open>command.encode('utf-8')\<close> is the command.
\<close>

definition decide :: "rat list \<Rightarrow> rat list \<Rightarrow> world \<Rightarrow> (error + string \<times> string) \<times> world" where
  "decide prediction recog_mask w =
     (case np_multiply prediction recog_mask of
        Inl e \<Rightarrow> (Inl e, w)
      | Inr result \<Rightarrow>
          (case np_argmax result of
             Inl e \<Rightarrow> (Inl e, w)
           | Inr k \<Rightarrow>
               (case list_get EMOTIONS k of
                  Inl e \<Rightarrow> (Inl e, w)
                | Inr emotion \<Rightarrow>
                    (case list_get COMMANDS k of
                       Inl e \<Rightarrow> (Inl e, w)
                     | Inr command \<Rightarrow>
                         (Inr (emotion, command),
                          py_print (Line (''Emotion: '' @ emotion @ [CHR 0x0A]))
                            (py_print (Values result) (serial_write command w)))))))"

text \<open>
  The whole round. Feature extraction and the interpreter are outside the repository;
  \<open>infer\<close> stands for them, from the window to the prediction.
\<close>

definition tflite_process_data ::
  "(rat list \<Rightarrow> rat list) \<Rightarrow> rat \<times> rat \<Rightarrow> world \<Rightarrow> (error + unit) \<times> world" where
  "tflite_process_data infer tuning w =
     (case tflite_window tuning w of
        (Inl e, w1) \<Rightarrow> (Inl e, w1)
      | (Inr data, w1) \<Rightarrow>
          (case decide (infer data) RECOG_MASK w1 of
             (Inl e, w2) \<Rightarrow> (Inl e, w2)
           | (Inr r, w2) \<Rightarrow> (Inr (), w2)))"

subsection \<open>Activation\<close>

definition SERIAL_PORT :: string where
  "SERIAL_PORT = ''/dev/cu.usbmodem14401''"

definition BAUD_RATE :: int where
  "BAUD_RATE = 38400"

text \<open>The open port: its name and its speed.\<close>

datatype serial = Serial string int

text \<open>
  A Python string is a list of code points; those below 256 are the characters here.
  \<^verbatim>\<open>str.lower\<close> moves the capital letters of that range 32 places up.
\<close>

definition lower_char :: "char \<Rightarrow> char" where
  "lower_char c =
     (let n = (of_char c :: nat) in
      if (65 \<le> n \<and> n \<le> 90) \<or> (192 \<le> n \<and> n \<le> 222 \<and> n \<noteq> 215)
      then char_of (n + 32) else c)"

definition py_lower :: "string \<Rightarrow> string" where
  "py_lower s = map lower_char s"

text \<open>\<^verbatim>\<open>s.encode('utf-8')\<close>: one byte below 128, two bytes from 128 to 255.\<close>

definition utf8_char :: "char \<Rightarrow> string" where
  "utf8_char c =
     (let n = (of_char c :: nat) in
      if n < 128 then [c]
      else [char_of (192 + n div 64), char_of (128 + n mod 64)])"

definition utf8_encode :: "string \<Rightarrow> string" where
  "utf8_encode s = concat (map utf8_char s)"

text \<open>
  \<open>conn\<close> is the outcome of \<^verbatim>\<open>serial.Serial(SERIAL_PORT, BAUD_RATE, timeout=1)\<close>: the text
  of the \<^verbatim>\<open>SerialException\<close>, or success. \<open>command\<close> is what the user types at the prompt
  of \<^verbatim>\<open>input\<close>; the prompt itself is not recorded in \<open>stdout\<close>.
\<close>

definition arduino_activate :: "string + unit \<Rightarrow> string \<Rightarrow> world \<Rightarrow> serial option \<times> world" where
  "arduino_activate conn command w =
     (case conn of
        Inl e \<Rightarrow>
          (None,
           py_print (Line (''Failed to connect to serial port '' @ SERIAL_PORT @ '': '' @ [CHR 0x0A] @ e)) w)
      | Inr u \<Rightarrow>
          (let arduino = Serial SERIAL_PORT BAUD_RATE
           in if py_lower command = ''x''
              then (Some arduino,
                    py_print (Line ''Open the Serial Monitor to check if it is working, then close it.'')
                      (py_print (Line ''Success Activated!'')
                        (serial_write (utf8_encode command) w)))
              else (Some arduino, w)))"

section \<open>Peer side: the command handler of the sketch\<close>

text \<open>
  The state the handler touches: the flag \<^verbatim>\<open>record\<close> and the four output pins
  (True for \<^verbatim>\<open>HIGH\<close>).
\<close>

record peer =
  record_flag :: bool
  led_builtin :: bool
  ledr :: bool
  ledg :: bool
  ledb :: bool

text \<open>The body of \<^verbatim>\<open>while (Serial.available())\<close> in \<^verbatim>\<open>loop\<close>, for one incoming byte.\<close>

definition on_byte :: "char \<Rightarrow> peer \<Rightarrow> peer" where
  "on_byte incomingByte p =
     (if incomingByte = CHR ''x''
      then (p\<lparr>record_flag := \<not> record_flag p, led_builtin := True\<rparr>)\<lparr>led_builtin := False\<rparr>
      else if incomingByte = CHR ''a'' then p\<lparr>ledr := True, ledg := True, ledb := False\<rparr>
      else if incomingByte = CHR ''b'' then p\<lparr>ledr := True, ledg := False, ledb := True\<rparr>
      else if incomingByte = CHR ''c'' then p\<lparr>ledr := False, ledg := True, ledb := True\<rparr>
      else if incomingByte = CHR ''d'' then p\<lparr>ledr := False, ledg := False, ledb := False\<rparr>
      else p)"

text \<open>The whole \<^verbatim>\<open>while\<close> loop, on the bytes waiting at the port.\<close>

definition serial_commands :: "string \<Rightarrow> peer \<Rightarrow> peer" where
  "serial_commands bytes p = foldl (\<lambda>q b. on_byte b q) p bytes"

section \<open>Properties\<close>

subsection \<open>Reading one sample\<close>

lemma py_int_Nil: "py_int [] = None"
  by (simp add: py_int_def)


lemma readline_Cons: "serial_in w = l # ls \<Longrightarrow> fst (readline w) = l \<and> serial_in (snd (readline w)) = ls"
  by (simp add: readline_def)

lemma readline_fst: "fst (readline w) = (case serial_in w of [] \<Rightarrow> [] | l # ls \<Rightarrow> l)"
  by (simp add: readline_def split: list.splits)



lemma read_token_nonempty:
  assumes "serial_in w = l # rest" "strip_crlf l \<noteq> []"
  shows "fst (read_token m a w) = strip_crlf l \<and> serial_in (snd (snd (read_token m a w))) = rest"
  using readline_Cons [OF assms(1)] assms(2)
  by (subst (1 2) read_token.simps) (simp add: Let_def py_print_def)






subsection \<open>Storing samples\<close>

lemma np_index_in_range: "0 \<le> j \<Longrightarrow> j < int n \<Longrightarrow> np_index n j = Some (nat j)"
  by (simp add: np_index_def)

lemma read_sample_numeric:
  assumes w: "serial_in w = l # rest"
    and l: "py_int (strip_crlf l) = Some raw"
    and j: "0 \<le> i + ov" "i + ov < int (length buffer)"
  shows "fst (read_sample i ov (Some mx, Some mn) m buffer w)
           = Inr (buffer[nat (i + ov) := normalize (of_int raw) 1 (- 1) mx mn])
       \<and> serial_in (snd (read_sample i ov (Some mx, Some mn) m buffer w)) = rest"
proof -
  have ne: "strip_crlf l \<noteq> []" using l py_int_Nil by auto
  note t = read_token_nonempty [OF w ne, of m 0]
  show ?thesis
    using t l np_index_in_range [OF j]
    by (simp add: read_sample_def Let_def apply_norm_def setitem_def)
qed

lemma refill_loop_numeric:
  assumes "serial_in w = ls @ rest"
    and "\<forall>l \<in> set ls. py_int (strip_crlf l) \<noteq> None"
    and "0 \<le> ov"
    and "nat ov + j + length ls \<le> length buffer"
  shows "fst (refill_loop (map int [j..<j + length ls]) ov (Some mx, Some mn) m buffer w)
           = Inr (take (nat ov + j) buffer
                  @ map (\<lambda>l. normalize (of_int (the (py_int (strip_crlf l)))) 1 (- 1) mx mn) ls
                  @ drop (nat ov + j + length ls) buffer)
       \<and> serial_in (snd (refill_loop (map int [j..<j + length ls]) ov (Some mx, Some mn) m buffer w)) = rest"
  using assms
proof (induction ls arbitrary: w j buffer)
  case Nil
  then show ?case by simp
next
  case (Cons l ls)
  let ?f = "\<lambda>l. normalize (of_int (the (py_int (strip_crlf l)))) 1 (- 1) mx mn"
  let ?k = "nat ov + j"
  from Cons.prems(2) obtain raw where raw: "py_int (strip_crlf l) = Some raw" by auto
  have w: "serial_in w = l # (ls @ rest)" using Cons.prems(1) by simp
  have k: "?k < length buffer" using Cons.prems(4) by simp
  have j1: "0 \<le> int j + ov" using Cons.prems(3) by simp
  have j2: "int j + ov < int (length buffer)" using k Cons.prems(3) by linarith
  have nk: "nat (int j + ov) = ?k" using Cons.prems(3) by linarith
  note s = read_sample_numeric [OF w raw j1 j2, of mx mn m]
  let ?b = "buffer[?k := ?f l]"
  let ?w = "snd (read_sample (int j) ov (Some mx, Some mn) m buffer w)"
  have s1: "fst (read_sample (int j) ov (Some mx, Some mn) m buffer w) = Inr ?b"
    using s raw nk by simp
  have s2: "serial_in ?w = ls @ rest" using s by simp
  have p2: "\<forall>l \<in> set ls. py_int (strip_crlf l) \<noteq> None" using Cons.prems(2) by simp
  have p4: "nat ov + Suc j + length ls \<le> length ?b" using Cons.prems(4) by simp
  note ih = Cons.IH [OF s2 p2 Cons.prems(3) p4]
  have upt: "map int [j..<j + length (l # ls)] = int j # map int [Suc j..<Suc j + length ls]"
    by (subst upt_rec) simp
  have step: "refill_loop (map int [j..<j + length (l # ls)]) ov (Some mx, Some mn) m buffer w
               = refill_loop (map int [Suc j..<Suc j + length ls]) ov (Some mx, Some mn) m ?b ?w"
    using s1 by (simp only: upt refill_loop.simps) (simp add: split_beta split: sum.splits prod.splits)
  have t: "take (nat ov + Suc j) ?b = take ?k buffer @ [?f l]"
    using k by (simp add: take_Suc_conv_app_nth)
  have d: "drop (nat ov + Suc j + length ls) ?b = drop (?k + length (l # ls)) buffer"
    by simp
  show ?case
    using ih t d by (simp only: step) simp
qed

lemma np_roll_take:
  assumes "0 \<le> ov" "nat ov \<le> length buffer"
  shows "take (nat ov) (np_roll buffer ov) = drop (length buffer - nat ov) buffer"
    and "length (np_roll buffer ov) = length buffer"
proof -
  show "length (np_roll buffer ov) = length buffer"
    by (simp add: np_roll_def Let_def)
  show "take (nat ov) (np_roll buffer ov) = drop (length buffer - nat ov) buffer"
  proof (cases "nat ov = length buffer")
    case True
    then have "ov mod int (length buffer) = 0" using assms(1) by (metis int_nat_eq mod_self)
    then show ?thesis using True by (simp add: np_roll_def Let_def)
  next
    case False
    then have lt: "ov < int (length buffer)" using assms by linarith
    then have "ov mod int (length buffer) = ov" using assms(1) by simp
    then show ?thesis using lt assms by (simp add: np_roll_def Let_def)
  qed
qed

lemma arduino_read_numeric:
  assumes len: "length buffer = nat buffer_size"
    and ov: "0 \<le> overlapping" "overlapping \<le> buffer_size"
    and w: "serial_in w = ls @ rest"
    and n: "length ls = nat (buffer_size - overlapping)"
    and num: "\<forall>l \<in> set ls. py_int (strip_crlf l) \<noteq> None"
  shows "fst (arduino_read buffer buffer_size overlapping (Some mx, Some mn) m w)
           = Inr (drop (length buffer - nat overlapping) buffer
                  @ map (\<lambda>l. normalize (of_int (the (py_int (strip_crlf l)))) 1 (- 1) mx mn) ls)
       \<and> serial_in (snd (arduino_read buffer buffer_size overlapping (Some mx, Some mn) m w)) = rest"
proof -
  have le: "nat overlapping \<le> length buffer" using len ov by simp
  note r = np_roll_take [OF ov(1) le]
  have rng: "py_range (buffer_size - overlapping) = map int [0..<0 + length ls]"
    using n by (simp add: py_range_def)
  have fit: "nat overlapping + 0 + length ls \<le> length (np_roll buffer overlapping)"
    using r(2) len n ov by simp
  have all: "nat overlapping + 0 + length ls = length (np_roll buffer overlapping)"
    using r(2) len n ov by simp
  have d: "drop (nat overlapping + length ls) (np_roll buffer overlapping) = []"
    using all by simp
  note l = refill_loop_numeric [OF w num ov(1) fit, of mx mn m]
  have a: "arduino_read buffer buffer_size overlapping (Some mx, Some mn) m w
            = refill_loop (map int [0..<0 + length ls]) overlapping (Some mx, Some mn) m
                (np_roll buffer overlapping) w"
    by (simp only: arduino_read_def Let_def rng)
  show ?thesis
    using l d r(1) by (simp add: a)
qed








subsection \<open>normalize\<close>







text \<open>
  Claim C5, as stated: with the range from \<open>-553\<close> to \<open>839\<close> and the target from \<open>-1\<close> to
  \<open>1\<close>, the raw values \<open>839\<close>, \<open>-553\<close> and \<open>0\<close> map to \<open>1\<close>, \<open>-1\<close> and about \<open>-0.0459\<close>.
  The third part fails, even with a tolerance of one hundredth.
\<close>

theorem normalize_zero_counterexample:
  "\<not> (normalize 839 1 (- 1) 839 (- 553) = 1
      \<and> normalize (- 553) 1 (- 1) 839 (- 553) = - 1
      \<and> \<bar>normalize 0 1 (- 1) 839 (- 553) - (- 459 / 10000)\<bar> \<le> 1 / 100)"
  by (simp add: normalize_def)

text \<open>
  Claim C5, amended: the raw values \<open>839\<close> and \<open>-553\<close> map to \<open>1\<close> and \<open>-1\<close>, and the raw
  value \<open>0\<close> maps to \<open>-143/696\<close>, which is \<open>-0.2055\<close> to four places.
\<close>

theorem normalize_calibration_scenario:
  "normalize 839 1 (- 1) 839 (- 553) = 1
   \<and> normalize (- 553) 1 (- 1) 839 (- 553) = - 1
   \<and> normalize 0 1 (- 1) 839 (- 553) = - (143 / 696)
   \<and> \<bar>normalize 0 1 (- 1) 839 (- 553) - (- 2055 / 10000)\<bar> \<le> 1 / 10000"
  by (simp add: normalize_def)

subsection \<open>The refill\<close>







subsection \<open>Consecutive rounds\<close>

lemma py_int_839: "py_int (strip_crlf ''839'') = Some 839"
  by code_simp

lemma py_int_m553: "py_int (strip_crlf ''-553'') = Some (- 553)"
  by code_simp

lemma tflite_window_numeric:
  assumes w: "serial_in w = ls @ rest"
    and n: "length ls = nat (BUFFER_SIZE - OVERLAPPED)"
    and num: "\<forall>l \<in> set ls. py_int (strip_crlf l) \<noteq> None"
  shows "fst (tflite_window tuning w)
           = Inr (replicate (nat OVERLAPPED) 0
                  @ map (\<lambda>l. normalize (of_int (the (py_int (strip_crlf l)))) 1 (- 1) (fst tuning) (snd tuning)) ls)
       \<and> serial_in (snd (tflite_window tuning w)) = rest"
proof -
  have len: "length (np_zeros BUFFER_SIZE) = nat BUFFER_SIZE" by (simp add: np_zeros_def)
  have o1: "0 \<le> OVERLAPPED" by (simp add: OVERLAPPED_def)
  have o2: "OVERLAPPED \<le> BUFFER_SIZE" by (simp add: OVERLAPPED_def BUFFER_SIZE_def)
  have z: "drop (length (np_zeros BUFFER_SIZE) - nat OVERLAPPED) (np_zeros BUFFER_SIZE)
             = replicate (nat OVERLAPPED) 0"
    by (simp add: np_zeros_def OVERLAPPED_def BUFFER_SIZE_def)
  from arduino_read_numeric [OF len o1 o2 w n num, of "fst tuning" "snd tuning" 10]
  show ?thesis by (simp only: tflite_window_def Let_def z)
qed

lemma decide_serial_in: "serial_in (snd (decide p m w)) = serial_in w"
  by (simp add: decide_def py_print_def serial_write_def split: sum.splits)

lemma tflite_process_data_serial_in:
  "serial_in (snd (tflite_process_data infer tuning w)) = serial_in (snd (tflite_window tuning w))"
proof (cases "tflite_window tuning w")
  case (Pair r w1)
  show ?thesis
  proof (cases r)
    case (Inl e)
    then show ?thesis using Pair by (simp add: tflite_process_data_def)
  next
    case (Inr data)
    then show ?thesis
      using Pair decide_serial_in [of "infer data" RECOG_MASK w1]
      by (cases "decide (infer data) RECOG_MASK w1")
         (auto simp add: tflite_process_data_def split: sum.splits)
  qed
qed

lemma read_sample_keeps_head:
  assumes "fst (read_sample i ov nrm m buffer w) = Inr b" "0 \<le> i" "0 \<le> ov"
  shows "length b = length buffer \<and> take (nat ov) b = take (nat ov) buffer"
proof -
  have k: "nat ov \<le> k" if "np_index (length buffer) (i + ov) = Some k" for k
    using that assms(2,3) by (auto simp add: np_index_def split: if_splits)
  show ?thesis
    using assms(1) k
    by (auto simp add: read_sample_def Let_def setitem_def
        split: sum.splits option.splits pyval.splits if_splits)
qed

lemma refill_loop_keeps_head:
  assumes "fst (refill_loop is ov nrm m buffer w) = Inr b" "\<forall>i \<in> set is. 0 \<le> i" "0 \<le> ov"
  shows "length b = length buffer \<and> take (nat ov) b = take (nat ov) buffer"
  using assms
proof (induction "is" arbitrary: buffer w)
  case Nil
  then show ?case by simp
next
  case (Cons i "is")
  obtain r w1 where s: "read_sample i ov nrm m buffer w = (r, w1)"
    by (cases "read_sample i ov nrm m buffer w")
  show ?case
  proof (cases r)
    case (Inl e)
    then show ?thesis using Cons.prems(1) s by simp
  next
    case (Inr b1)
    then have l: "fst (refill_loop is ov nrm m b1 w1) = Inr b" using Cons.prems(1) s by simp
    have p: "\<forall>i \<in> set is. 0 \<le> i" using Cons.prems(2) by simp
    have "fst (read_sample i ov nrm m buffer w) = Inr b1" using s Inr by simp
    from read_sample_keeps_head [OF this _ Cons.prems(3)] Cons.prems(2)
    have "length b1 = length buffer \<and> take (nat ov) b1 = take (nat ov) buffer" by simp
    with Cons.IH [OF l p Cons.prems(3)] show ?thesis by simp
  qed
qed

lemma tflite_window_head:
  assumes "fst (tflite_window tuning w) = Inr data"
  shows "length data = nat BUFFER_SIZE \<and> take (nat OVERLAPPED) data = replicate (nat OVERLAPPED) 0"
proof -
  let ?z = "np_roll (np_zeros BUFFER_SIZE) OVERLAPPED"
  have o1: "0 \<le> OVERLAPPED" by (simp add: OVERLAPPED_def)
  have le: "nat OVERLAPPED \<le> length (np_zeros BUFFER_SIZE)"
    by (simp add: np_zeros_def OVERLAPPED_def BUFFER_SIZE_def)
  have z1: "length ?z = nat BUFFER_SIZE"
    using np_roll_take(2) [OF o1 le] by (simp add: np_zeros_def)
  have z2: "take (nat OVERLAPPED) ?z = replicate (nat OVERLAPPED) 0"
    using np_roll_take(1) [OF o1 le] by (simp add: np_zeros_def OVERLAPPED_def BUFFER_SIZE_def)
  have r: "\<forall>i \<in> set (py_range (BUFFER_SIZE - OVERLAPPED)). 0 \<le> i"
    by (auto simp add: py_range_def)
  have "fst (refill_loop (py_range (BUFFER_SIZE - OVERLAPPED)) OVERLAPPED
               (Some (fst tuning), Some (snd tuning)) 10 ?z w) = Inr data"
    using assms by (simp add: tflite_window_def arduino_read_def Let_def)
  from refill_loop_keeps_head [OF this r o1] z1 z2 show ?thesis by simp
qed

text \<open>
  Claim C2 says that the window of a round keeps \<open>OVERLAPPED\<close> entries of the window of
  the round before. Every round starts from \<^verbatim>\<open>np.zeros(BUFFER_SIZE)\<close> instead: whatever the
  previous window was, the new one has the same length \<open>BUFFER_SIZE\<close> and its first
  \<open>OVERLAPPED\<close> entries are zero.
\<close>

theorem tflite_window_restarts_from_zeros:
  assumes "fst (tflite_window tuning w) = Inr previous"
    and "fst (tflite_window tuning (snd (tflite_process_data infer tuning w))) = Inr data"
  shows "length data = length previous
       \<and> length data = nat BUFFER_SIZE
       \<and> take (nat OVERLAPPED) data = replicate (nat OVERLAPPED) 0"
  using tflite_window_head [OF assms(1)] tflite_window_head [OF assms(2)] by simp

text \<open>
  Two rounds in a row, the first on samples \<open>839\<close>, the second on samples \<open>-553\<close>. The first
  window ends in ones; the second begins with zeros, which are neither the last nor the
  second \<open>OVERLAPPED\<close> entries of the first.
\<close>

theorem tflite_window_restarts_from_zeros_witness:
  "fst (tflite_window (839, - 553)
          \<lparr>serial_in = replicate 23488 ''839'' @ replicate 23488 ''-553'', serial_out = [], stdout = []\<rparr>)
     = Inr (replicate 512 0 @ replicate 23488 1)
   \<and> fst (tflite_window (839, - 553)
            (snd (tflite_process_data (\<lambda>data. [1, 0, 0, 0]) (839, - 553)
               \<lparr>serial_in = replicate 23488 ''839'' @ replicate 23488 ''-553'', serial_out = [], stdout = []\<rparr>)))
     = Inr (replicate 512 0 @ replicate 23488 (- 1))
   \<and> take (nat OVERLAPPED) (replicate 512 0 @ replicate 23488 (- 1 :: rat)) = replicate (nat OVERLAPPED) 0
   \<and> take 512 (replicate 512 0 @ replicate 23488 (- 1 :: rat))
       \<noteq> drop 23488 (replicate 512 0 @ replicate 23488 1)
   \<and> take 512 (replicate 512 0 @ replicate 23488 (- 1 :: rat))
       \<noteq> take 512 (rotate 512 (replicate 512 0 @ replicate 23488 1))"
proof -
  let ?w = "\<lparr>serial_in = replicate 23488 ''839'' @ replicate 23488 ''-553'', serial_out = [], stdout = []\<rparr>"
  let ?t = "(839 :: rat, - 553 :: rat)"
  let ?w1 = "snd (tflite_process_data (\<lambda>data. [1, 0, 0, 0]) ?t ?w)"
  have n: "normalize 839 1 (- 1) 839 (- 553) = 1" "normalize (- 553) 1 (- 1) 839 (- 553) = - 1"
    by (simp_all add: normalize_def)
  have len: "length (replicate 23488 l) = nat (BUFFER_SIZE - OVERLAPPED)" for l :: string
    by (simp add: BUFFER_SIZE_def OVERLAPPED_def)
  have ov: "nat OVERLAPPED = 512" by (simp add: OVERLAPPED_def)
  have a1: "serial_in ?w = replicate 23488 ''839'' @ replicate 23488 ''-553''" by simp
  have a2: "\<forall>l \<in> set (replicate 23488 ''839''). py_int (strip_crlf l) \<noteq> None"
    using py_int_839 by simp
  note r1 = tflite_window_numeric [OF a1 len a2, of ?t]
  have first: "fst (tflite_window ?t ?w) = Inr (replicate 512 0 @ replicate 23488 1)"
    using r1 n py_int_839 by (simp add: ov)
  have b1: "serial_in ?w1 = replicate 23488 ''-553'' @ []"
    using r1 by (simp add: tflite_process_data_serial_in)
  have b2: "\<forall>l \<in> set (replicate 23488 ''-553''). py_int (strip_crlf l) \<noteq> None"
    using py_int_m553 by simp
  note r2 = tflite_window_numeric [OF b1 len b2, of ?t]
  have second: "fst (tflite_window ?t ?w1) = Inr (replicate 512 0 @ replicate 23488 (- 1))"
    using r2 n py_int_m553 by (simp add: ov)
  from tflite_window_restarts_from_zeros [OF first second]
  have z: "take (nat OVERLAPPED) (replicate 512 0 @ replicate 23488 (- 1 :: rat)) = replicate (nat OVERLAPPED) 0"
    by blast
  have d1: "take 512 (replicate 512 0 @ replicate 23488 (- 1 :: rat))
       \<noteq> drop 23488 (replicate 512 0 @ replicate 23488 1)"
    by simp
  have "rotate 512 (replicate 512 (0 :: rat) @ replicate 23488 1) = replicate 23488 1 @ replicate 512 0"
    using rotate_append [of "replicate 512 (0 :: rat)" "replicate 23488 1"] by simp
  then have d2: "take 512 (replicate 512 0 @ replicate 23488 (- 1 :: rat))
       \<noteq> take 512 (rotate 512 (replicate 512 0 @ replicate 23488 1))"
    by simp
  from first second z d1 d2 show ?thesis by blast
qed

subsection \<open>The decision\<close>

text \<open>
  Claim C6. The vector \<open>[0.99700433, 0.8471093, 2.38675348, 1.45389081]\<close> multiplied by the
  mask \<open>[1, 30000, 40000, 500]\<close> has its greatest entry at index 2; the decision is the
  label \<open>surprise\<close> and the byte \<open>c\<close> is written to the port.
\<close>

theorem decide_surprise_scenario:
  "np_multiply [99700433 / 100000000, 8471093 / 10000000, 238675348 / 100000000, 145389081 / 100000000] RECOG_MASK
     = Inr [99700433 / 100000000, 25413279 / 1000, 59668837 / 625, 145389081 / 200000]
   \<and> np_argmax [99700433 / 100000000, 25413279 / 1000, 59668837 / 625, 145389081 / 200000] = Inr 2
   \<and> fst (decide [99700433 / 100000000, 8471093 / 10000000, 238675348 / 100000000, 145389081 / 100000000] RECOG_MASK w)
       = Inr (''surprise'', ''c'')
   \<and> serial_out (snd (decide [99700433 / 100000000, 8471093 / 10000000, 238675348 / 100000000, 145389081 / 100000000] RECOG_MASK w))
       = serial_out w @ ''c''"
  by (simp add: decide_def np_multiply_def np_argmax_def RECOG_MASK_def list_get_def
      EMOTIONS_def COMMANDS_def serial_write_def py_print_def)

lemma argmax_scan_first_max:
  assumes "length pre = i" "best_i < i" "(pre @ xs) ! best_i = best"
    and "\<forall>j < i. (pre @ xs) ! j \<le> best"
    and "\<forall>j < best_i. (pre @ xs) ! j < best"
  shows "argmax_scan xs i best best_i < length (pre @ xs)
       \<and> (\<forall>j < length (pre @ xs). (pre @ xs) ! j \<le> (pre @ xs) ! argmax_scan xs i best best_i)
       \<and> (\<forall>j < argmax_scan xs i best best_i. (pre @ xs) ! j < (pre @ xs) ! argmax_scan xs i best best_i)"
  using assms
proof (induction xs arbitrary: pre i best best_i)
  case Nil
  then show ?case by simp
next
  case (Cons x xs)
  have ys: "pre @ x # xs = (pre @ [x]) @ xs" by simp
  have xi: "(pre @ x # xs) ! i = x" using Cons.prems(1) by (simp add: nth_append)
  have len: "length (pre @ [x]) = Suc i" using Cons.prems(1) by simp
  show ?case
  proof (cases "best < x")
    case True
    have a: "((pre @ [x]) @ xs) ! i = x" using xi by simp
    have b: "\<forall>j < Suc i. ((pre @ [x]) @ xs) ! j \<le> x"
    proof (intro allI impI)
      fix j assume "j < Suc i"
      then consider "j < i" | "j = i" by linarith
      then show "((pre @ [x]) @ xs) ! j \<le> x"
      proof cases
        case 1
        then have "(pre @ x # xs) ! j \<le> best" using Cons.prems(4) by blast
        then show ?thesis using True by simp
      next
        case 2
        then show ?thesis using a by simp
      qed
    qed
    have c: "\<forall>j < i. ((pre @ [x]) @ xs) ! j < x"
    proof (intro allI impI)
      fix j assume "j < i"
      then have "(pre @ x # xs) ! j \<le> best" using Cons.prems(4) by blast
      then show "((pre @ [x]) @ xs) ! j < x" using True by simp
    qed
    have "i < Suc i" by simp
    from Cons.IH [OF len this a b c] True show ?thesis by simp
  next
    case False
    have a: "((pre @ [x]) @ xs) ! best_i = best" using Cons.prems(3) by simp
    have b: "\<forall>j < Suc i. ((pre @ [x]) @ xs) ! j \<le> best"
    proof (intro allI impI)
      fix j assume "j < Suc i"
      then consider "j < i" | "j = i" by linarith
      then show "((pre @ [x]) @ xs) ! j \<le> best"
      proof cases
        case 1
        then show ?thesis using Cons.prems(4) by simp
      next
        case 2
        then show ?thesis using xi False by simp
      qed
    qed
    have c: "\<forall>j < best_i. ((pre @ [x]) @ xs) ! j < best" using Cons.prems(5) by simp
    have "best_i < Suc i" using Cons.prems(2) by simp
    from Cons.IH [OF len this a b c] False show ?thesis by simp
  qed
qed

lemma np_argmax_first_max:
  assumes "np_argmax xs = Inr k"
  shows "k < length xs \<and> (\<forall>j < length xs. xs ! j \<le> xs ! k) \<and> (\<forall>j < k. xs ! j < xs ! k)"
proof (cases xs)
  case Nil
  then show ?thesis using assms by (simp add: np_argmax_def)
next
  case (Cons x xs')
  then have k: "k = argmax_scan xs' 1 x 0" using assms by (simp add: np_argmax_def)
  have "argmax_scan xs' 1 x 0 < length ([x] @ xs')
       \<and> (\<forall>j < length ([x] @ xs'). ([x] @ xs') ! j \<le> ([x] @ xs') ! argmax_scan xs' 1 x 0)
       \<and> (\<forall>j < argmax_scan xs' 1 x 0. ([x] @ xs') ! j < ([x] @ xs') ! argmax_scan xs' 1 x 0)"
    by (rule argmax_scan_first_max) simp_all
  then show ?thesis using k Cons by simp
qed

lemma decide_Inr:
  assumes "fst (decide p m w) = Inr (e, c)"
  shows "\<exists>result k. np_multiply p m = Inr result \<and> np_argmax result = Inr k
          \<and> k < length EMOTIONS \<and> k < length COMMANDS \<and> e = EMOTIONS ! k \<and> c = COMMANDS ! k"
  using assms
  by (auto simp add: decide_def list_get_def split: sum.splits if_splits)

lemma decide_fst_world: "fst (decide p m w1) = fst (decide p m w2)"
  by (simp add: decide_def split: sum.splits)

lemma decide_total_4:
  assumes "length p = 4" "length m = 4"
  shows "\<exists>e c. fst (decide p m w) = Inr (e, c)"
proof -
  have r: "np_multiply p m = Inr (map2 (*) p m)" using assms by (simp add: np_multiply_def)
  have l: "length (map2 (*) p m) = 4" using assms by simp
  then obtain x xs where xs: "map2 (*) p m = x # xs" by (cases "map2 (*) p m") auto
  then have a: "np_argmax (map2 (*) p m) = Inr (argmax_scan xs 1 x 0)"
    by (simp add: np_argmax_def)
  from np_argmax_first_max [OF a] have "argmax_scan xs 1 x 0 < length (map2 (*) p m)"
    by blast
  with l have "argmax_scan xs 1 x 0 < 4" by (simp only:)
  then show ?thesis using r a
    by (simp add: decide_def list_get_def EMOTIONS_def COMMANDS_def)
qed

text \<open>
  Claim C7. The label and the command depend on the prediction and the mask only, not on
  the state the decision runs in; on four predictions and four weights the decision
  always succeeds; and whenever it succeeds, label and command are taken at the same
  index of \<open>['neutral', 'happy', 'surprise', 'unpleasant']\<close> and \<open>['a', 'b', 'c', 'd']\<close>, the
  first index at which the weighted vector is greatest: no entry is greater, and every
  entry before it is strictly smaller. The command is what is written to the port.
\<close>

theorem decide_deterministic_first_index:
  "fst (decide p m w1) = fst (decide p m w2)
   \<and> (length p = 4 \<and> length m = 4 \<longrightarrow> (\<exists>e c. fst (decide p m w1) = Inr (e, c)))
   \<and> (fst (decide p m w1) = Inr (e, c) \<longrightarrow>
        (\<exists>result k. np_multiply p m = Inr result \<and> k < length result \<and> k < 4
           \<and> e = [''neutral'', ''happy'', ''surprise'', ''unpleasant''] ! k
           \<and> c = [''a'', ''b'', ''c'', ''d''] ! k
           \<and> (\<forall>j < length result. result ! j \<le> result ! k)
           \<and> (\<forall>j < k. result ! j < result ! k)
           \<and> serial_out (snd (decide p m w1)) = serial_out w1 @ c))"
proof -
  have "\<exists>result k. np_multiply p m = Inr result \<and> k < length result \<and> k < 4
           \<and> e = [''neutral'', ''happy'', ''surprise'', ''unpleasant''] ! k
           \<and> c = [''a'', ''b'', ''c'', ''d''] ! k
           \<and> (\<forall>j < length result. result ! j \<le> result ! k)
           \<and> (\<forall>j < k. result ! j < result ! k)
           \<and> serial_out (snd (decide p m w1)) = serial_out w1 @ c"
    if h: "fst (decide p m w1) = Inr (e, c)"
  proof -
    from decide_Inr [OF h] obtain result k where
      r: "np_multiply p m = Inr result" and k: "np_argmax result = Inr k"
      and k4: "k < length EMOTIONS" "k < length COMMANDS"
      and e: "e = EMOTIONS ! k" and c: "c = COMMANDS ! k"
      by blast
    have out: "serial_out (snd (decide p m w1)) = serial_out w1 @ c"
      using r k k4 c
      by (simp add: decide_def list_get_def py_print_def serial_write_def)
    have k4': "k < 4" using k4 by (simp add: EMOTIONS_def)
    have e': "e = [''neutral'', ''happy'', ''surprise'', ''unpleasant''] ! k"
      using e by (simp only: EMOTIONS_def)
    have c': "c = [''a'', ''b'', ''c'', ''d''] ! k"
      using c by (simp only: COMMANDS_def)
    from np_argmax_first_max [OF k] r k4' e' c' out show ?thesis
      by blast
  qed
  then show ?thesis using decide_fst_world [of p m w1 w2] decide_total_4 [of p m w1] by blast
qed

text \<open>A tie between indices 1 and 2: the lower one wins.\<close>

theorem decide_deterministic_first_index_witness:
  "fst (decide [1, 1, 1, 1] [1, 2, 2, 1] \<lparr>serial_in = [], serial_out = [], stdout = []\<rparr>)
     = Inr (''happy'', ''b'')
   \<and> (\<exists>result k. np_multiply [1, 1, 1, 1] [1, 2, 2, 1] = Inr result \<and> k < length result \<and> k < 4
           \<and> ''happy'' = [''neutral'', ''happy'', ''surprise'', ''unpleasant''] ! k
           \<and> ''b'' = [''a'', ''b'', ''c'', ''d''] ! k
           \<and> (\<forall>j < length result. result ! j \<le> result ! k)
           \<and> (\<forall>j < k. result ! j < result ! k))"
proof -
  have h: "fst (decide [1, 1, 1, 1] [1, 2, 2, 1] \<lparr>serial_in = [], serial_out = [], stdout = []\<rparr>)
     = Inr (''happy'', ''b'')"
    by (simp add: decide_def np_multiply_def np_argmax_def list_get_def EMOTIONS_def COMMANDS_def)
  with decide_deterministic_first_index [of "[1, 1, 1, 1]" "[1, 2, 2, 1]"
      "\<lparr>serial_in = [], serial_out = [], stdout = []\<rparr>" "\<lparr>serial_in = [], serial_out = [], stdout = []\<rparr>"
      "''happy''" "''b''"]
  show ?thesis by blast
qed

subsection \<open>Activation and the peer\<close>

lemma lower_char_x: "lower_char c = CHR ''x'' \<longleftrightarrow> c = CHR ''x'' \<or> c = CHR ''X''"
proof
  assume h: "lower_char c = CHR ''x''"
  show "c = CHR ''x'' \<or> c = CHR ''X''"
  proof (cases "(65 \<le> (of_char c :: nat) \<and> (of_char c :: nat) \<le> 90)
                \<or> (192 \<le> (of_char c :: nat) \<and> (of_char c :: nat) \<le> 222 \<and> (of_char c :: nat) \<noteq> 215)")
    case True
    then have "char_of ((of_char c :: nat) + 32) = CHR ''x''"
      using h by (simp add: lower_char_def Let_def)
    then have "(of_char (char_of ((of_char c :: nat) + 32) :: char) :: nat) = of_char (CHR ''x'')"
      by simp
    then have "((of_char c :: nat) + 32) mod 256 = 120"
      by (simp only: of_char_of) simp
    moreover from True have "(of_char c :: nat) + 32 < 256" by auto
    ultimately have "(of_char c :: nat) = 88" by simp
    then have "(of_char c :: nat) = of_char (CHR ''X'')" by simp
    then have "c = CHR ''X''" by (simp only: of_char_eq_iff)
    then show ?thesis by simp
  next
    case False
    have "lower_char c = c"
      by (simp only: lower_char_def Let_def False if_False)
    with h show ?thesis by simp
  qed
next
  have "lower_char (CHR ''x'') = CHR ''x''" "lower_char (CHR ''X'') = CHR ''x''"
    by code_simp+
  moreover assume "c = CHR ''x'' \<or> c = CHR ''X''"
  ultimately show "lower_char c = CHR ''x''"
    by auto
qed

lemma py_lower_x: "py_lower s = ''x'' \<longleftrightarrow> s = ''x'' \<or> s = ''X''"
proof (cases s)
  case Nil
  then show ?thesis by (simp add: py_lower_def)
next
  case (Cons c cs)
  then show ?thesis using lower_char_x [of c] by (cases cs) (auto simp add: py_lower_def)
qed

text \<open>
  Claim C10. Once the port is open, \<open>arduino_activate\<close> returns the handle whatever the
  user types; it writes the typed string, UTF-8 encoded and in the case it was typed in,
  exactly when its lower-case form is \<open>x\<close>, that is for \<open>x\<close> and \<open>X\<close> only, and writes
  nothing otherwise. Typing \<open>X\<close> sends the byte \<open>X\<close>, which the handler of the sketch
  ignores: only the byte \<open>x\<close> toggles the record flag.
\<close>

theorem arduino_activate_writes:
  "fst (arduino_activate (Inr u) s w) = Some (Serial SERIAL_PORT BAUD_RATE)
   \<and> (py_lower s = ''x'' \<longrightarrow>
        serial_out (snd (arduino_activate (Inr u) s w)) = serial_out w @ utf8_encode s)
   \<and> (py_lower s \<noteq> ''x'' \<longrightarrow>
        serial_out (snd (arduino_activate (Inr u) s w)) = serial_out w)
   \<and> (py_lower s = ''x'' \<longleftrightarrow> s = ''x'' \<or> s = ''X'')
   \<and> serial_out (snd (arduino_activate (Inr u) ''X'' w)) = serial_out w @ ''X''
   \<and> on_byte (CHR ''X'') p = p
   \<and> serial_commands ''X'' p = p
   \<and> record_flag (on_byte (CHR ''x'') p) = (\<not> record_flag p)"
proof -
  have a: "fst (arduino_activate (Inr u) s w) = Some (Serial SERIAL_PORT BAUD_RATE)"
    by (simp add: arduino_activate_def Let_def)
  have b: "py_lower s = ''x'' \<longrightarrow>
        serial_out (snd (arduino_activate (Inr u) s w)) = serial_out w @ utf8_encode s"
    by (simp add: arduino_activate_def Let_def py_print_def serial_write_def)
  have c: "py_lower s \<noteq> ''x'' \<longrightarrow>
        serial_out (snd (arduino_activate (Inr u) s w)) = serial_out w"
    by (simp add: arduino_activate_def Let_def)
  have d: "serial_out (snd (arduino_activate (Inr u) ''X'' w)) = serial_out w @ ''X''"
  proof -
    have "py_lower ''X'' = ''x''" "utf8_encode ''X'' = ''X''" by code_simp+
    then show ?thesis
      by (simp add: arduino_activate_def Let_def py_print_def serial_write_def)
  qed
  have e: "on_byte (CHR ''X'') p = p"
    by (simp add: on_byte_def)
  have f: "serial_commands ''X'' p = p"
    by (simp add: serial_commands_def on_byte_def)
  have g: "record_flag (on_byte (CHR ''x'') p) = (\<not> record_flag p)"
    by (simp add: on_byte_def)
  show ?thesis using a b c d e f g py_lower_x [of s] by blast
qed

text \<open>Both cases on concrete inputs: \<open>X\<close> is written, \<open>y\<close> is not.\<close>

theorem arduino_activate_writes_witness:
  "py_lower ''X'' = ''x''
   \<and> serial_out (snd (arduino_activate (Inr ()) ''X'' \<lparr>serial_in = [], serial_out = [], stdout = []\<rparr>)) = ''X''
   \<and> py_lower ''y'' \<noteq> ''x''
   \<and> serial_out (snd (arduino_activate (Inr ()) ''y'' \<lparr>serial_in = [], serial_out = [], stdout = []\<rparr>)) = []"
proof -
  have h1: "py_lower ''X'' = ''x''" by code_simp
  have h2: "py_lower ''y'' \<noteq> ''x''" by code_simp
  have e: "utf8_encode ''X'' = ''X''" by (simp add: utf8_encode_def utf8_char_def)
  from arduino_activate_writes [of "()" "''X''" "\<lparr>serial_in = [], serial_out = [], stdout = []\<rparr>"]
    arduino_activate_writes [of "()" "''y''" "\<lparr>serial_in = [], serial_out = [], stdout = []\<rparr>"]
    h1 h2 e
  show ?thesis by simp
qed

end
